theory Spec2Isabelle
  imports Main "HOL-Library.Sublist"
begin

section \<open>The PK3 backup, strip and restore operations of swap.py\<close>

text \<open>
  The development embeds the two operations of \<^verbatim>\<open>swap.py\<close>, \<^verbatim>\<open>backup_pk3\<close> and
  \<^verbatim>\<open>restore_pk3\<close>, over an explicit filesystem. Both functions of the source talk to the
  world through \<^verbatim>\<open>os\<close>, \<^verbatim>\<open>shutil\<close>, \<^verbatim>\<open>zipfile\<close> and \<^verbatim>\<open>print\<close>; the model passes
  the filesystem as a value, collects the printed lines as a list of messages, and returns
  an exception that leaves the function uncaught as \<open>Some e\<close>.

  The library calls are modelled at their documented interface, on POSIX paths:
  \<^item> a file holds either a ZIP archive (its members, in central-directory order) or bytes
    that are no ZIP archive;
  \<^item> \<^verbatim>\<open>ZipFile.infolist()\<close> lists the members in order, \<^verbatim>\<open>ZipFile.read(name)\<close> looks the
    name up in the archive's name dictionary, in which a later member replaces an earlier
    one of the same name;
  \<^item> \<^verbatim>\<open>ZipFile.writestr(name, data)\<close> appends a member under the name it is given. The
    library stores a name up to its first NUL character, so this is what it does for a
    name without NUL; the properties of the entry names below are stated for prefixes
    without NUL (\<open>nul_free\<close>), and the members of an archive carry their names as
    \<^verbatim>\<open>infolist()\<close> gives them, which is without NUL;
  \<^item> every call that may raise does so when the record \<open>faults\<close> says so, which stands for
    what the operating system does at that call (a locked file, a full disk, a missing
    permission).
\<close>

subsection \<open>Data\<close>

type_synonym path = string

type_synonym bytes = "char list"

datatype exn = OSError | BadZipFile | KeyError | OtherException

text \<open>
  A member of an archive: its name as \<^verbatim>\<open>infolist()\<close> gives it, and what \<^verbatim>\<open>ZipFile.read\<close>
  yields for it, the bytes or the exception of a member that cannot be read (bad CRC,
  unsupported compression, encryption).
\<close>

record member =
  filename :: string
  stored :: "exn + bytes"

datatype fdata = Zip "member list" | NotZip bytes

type_synonym filesystem = "path \<rightharpoonup> fdata"

text \<open>What \<^verbatim>\<open>shutil.copyfile\<close> does: it copies, or it raises and leaves the destination
  untouched (\<open>CopyRaises None\<close>) or with some partial content (\<open>CopyRaises (Some d)\<close>).\<close>

datatype copy_outcome = Copied | CopyRaises "fdata option"

record faults =
  copy_fault :: "path \<Rightarrow> path \<Rightarrow> copy_outcome"
  remove_raises :: "path \<Rightarrow> bool"
  rename_raises :: "path \<Rightarrow> path \<Rightarrow> bool"
  open_raises :: "path \<Rightarrow> bool"
  create_raises :: "path \<Rightarrow> bool"
  writestr_raises :: "member list \<Rightarrow> string \<Rightarrow> bool"
  close_raises :: "path \<Rightarrow> bool"

text \<open>The lines the two functions print, one constructor for each \<^verbatim>\<open>print\<close> of the source.\<close>

datatype msg =
    Error_file_not_found path
  | Warning_backup_exists path
  | Backup_created path
  | Error_creating_backup exn
  | Error_copying_file string exn
  | Added_placeholder string
  | Error_adding_placeholder string exn
  | Files_removed path
  | Error_not_valid_zip path
  | Error_during_modification exn
  | Original_modified path
  | Error_replacing exn
  | Error_backup_not_found path
  | Removing_existing path
  | Error_removing path exn
  | Restored_from_backup path
  | Error_restoring exn

subsection \<open>The library calls\<close>

definition path_exists :: "filesystem \<Rightarrow> path \<Rightarrow> bool" where
  "path_exists fs p = (fs p \<noteq> None)"

text \<open>\<^verbatim>\<open>shutil.copyfile(src, dst)\<close>: a missing source and \<open>src = dst\<close> (SameFileError) raise
  subclasses of OSError.\<close>

definition copyfile :: "faults \<Rightarrow> path \<Rightarrow> path \<Rightarrow> filesystem \<Rightarrow> exn option \<times> filesystem" where
  "copyfile F src dst fs =
     (case fs src of
        None \<Rightarrow> (Some OSError, fs)
      | Some d \<Rightarrow>
          if src = dst then (Some OSError, fs)
          else (case copy_fault F src dst of
                  Copied \<Rightarrow> (None, fs(dst \<mapsto> d))
                | CopyRaises None \<Rightarrow> (Some OSError, fs)
                | CopyRaises (Some part) \<Rightarrow> (Some OSError, fs(dst \<mapsto> part))))"

definition os_remove :: "faults \<Rightarrow> path \<Rightarrow> filesystem \<Rightarrow> exn + filesystem" where
  "os_remove F p fs =
     (if fs p = None \<or> remove_raises F p then Inl OSError else Inr (fs(p := None)))"

definition os_rename :: "faults \<Rightarrow> path \<Rightarrow> path \<Rightarrow> filesystem \<Rightarrow> exn + filesystem" where
  "os_rename F src dst fs =
     (case fs src of
        None \<Rightarrow> Inl OSError
      | Some d \<Rightarrow>
          if rename_raises F src dst then Inl OSError
          else if src = dst then Inr fs
          else Inr ((fs(src := None))(dst \<mapsto> d)))"

definition startswith :: "string \<Rightarrow> string \<Rightarrow> bool" where
  "startswith s p = prefix p s"

definition endswith :: "string \<Rightarrow> string \<Rightarrow> bool" where
  "endswith s p = suffix p s"

text \<open>\<^verbatim>\<open>os.path.join(a, b)\<close> of posixpath, for two components.\<close>

definition os_path_join :: "string \<Rightarrow> string \<Rightarrow> string" where
  "os_path_join a b =
     (if startswith b ''/'' then b
      else if a = [] \<or> endswith a ''/'' then a @ b
      else a @ ''/'' @ b)"

text \<open>\<^verbatim>\<open>zipfile.ZipFile(p, 'r')\<close>: the members of the archive at \<open>p\<close>.\<close>

definition ZipFile_r :: "faults \<Rightarrow> path \<Rightarrow> filesystem \<Rightarrow> exn + member list" where
  "ZipFile_r F p fs =
     (case fs p of
        None \<Rightarrow> Inl OSError
      | Some d \<Rightarrow>
          if open_raises F p then Inl OSError
          else (case d of Zip ms \<Rightarrow> Inr ms | NotZip b \<Rightarrow> Inl BadZipFile))"

text \<open>\<^verbatim>\<open>zipfile.ZipFile(p, 'w', ZIP_DEFLATED)\<close> creates or truncates the file at once; the
  archive becomes valid when the writer is closed and the central directory is written.\<close>

definition ZipFile_w :: "faults \<Rightarrow> path \<Rightarrow> filesystem \<Rightarrow> exn + filesystem" where
  "ZipFile_w F p fs = (if create_raises F p then Inl OSError else Inr (fs(p \<mapsto> NotZip [])))"

definition ZipFile_close :: "faults \<Rightarrow> path \<Rightarrow> member list \<Rightarrow> filesystem \<Rightarrow> exn option \<times> filesystem" where
  "ZipFile_close F p written fs =
     (if close_raises F p then (Some OSError, fs) else (None, fs(p \<mapsto> Zip written)))"

text \<open>The name dictionary of an open archive (\<^verbatim>\<open>NameToInfo\<close>): the last member of a name
  wins.\<close>

definition NameToInfo :: "member list \<Rightarrow> string \<rightharpoonup> member" where
  "NameToInfo ms = map_of (rev (map (\<lambda>m. (filename m, m)) ms))"

definition zip_read :: "member list \<Rightarrow> string \<Rightarrow> exn + bytes" where
  "zip_read ms name = (case NameToInfo ms name of None \<Rightarrow> Inl KeyError | Some m \<Rightarrow> stored m)"

text \<open>\<^verbatim>\<open>zip_write.writestr(name, data)\<close>, for a name without NUL: the member is appended
  under that name, or the call raises.\<close>

definition writestr :: "faults \<Rightarrow> member list \<Rightarrow> string \<Rightarrow> bytes \<Rightarrow> exn + member list" where
  "writestr F written name data =
     (if writestr_raises F written name then Inl OSError
      else Inr (written @ [\<lparr>filename = name, stored = Inr data\<rparr>]))"

subsection \<open>backup_pk3\<close>

text \<open>The inner loop over \<^verbatim>\<open>dirs_to_clear\<close>, with its \<^verbatim>\<open>break\<close>.\<close>

fun should_exclude :: "string \<Rightarrow> string list \<Rightarrow> bool" where
  "should_exclude name [] = False"
| "should_exclude name (dir_path # dirs) =
     (if startswith name dir_path then True else should_exclude name dirs)"

text \<open>The loop over \<^verbatim>\<open>zip_read.infolist()\<close>. The state is the list of members written so
  far and the lines printed so far; \<open>src\<close> is the archive being read.\<close>

fun copy_items ::
  "faults \<Rightarrow> member list \<Rightarrow> string list \<Rightarrow> member list \<Rightarrow> member list \<times> msg list
     \<Rightarrow> member list \<times> msg list" where
  "copy_items F src dirs [] (written, out) = (written, out)"
| "copy_items F src dirs (item # items) (written, out) =
     (if should_exclude (filename item) dirs then copy_items F src dirs items (written, out)
      else (case zip_read src (filename item) of
              Inl e \<Rightarrow>
                copy_items F src dirs items (written, out @ [Error_copying_file (filename item) e])
            | Inr data \<Rightarrow>
                (case writestr F written (filename item) data of
                   Inl e \<Rightarrow>
                     copy_items F src dirs items
                       (written, out @ [Error_copying_file (filename item) e])
                 | Inr written' \<Rightarrow> copy_items F src dirs items (written', out))))"

text \<open>The loop that adds a \<^verbatim>\<open>.keep\<close> file for each directory.\<close>

fun add_keep_files ::
  "faults \<Rightarrow> string list \<Rightarrow> member list \<times> msg list \<Rightarrow> member list \<times> msg list" where
  "add_keep_files F [] (written, out) = (written, out)"
| "add_keep_files F (dir_path # dirs) (written, out) =
     (let keep_file_path = os_path_join dir_path ''.keep'' in
      case writestr F written keep_file_path [] of
        Inr written' \<Rightarrow> add_keep_files F dirs (written', out @ [Added_placeholder keep_file_path])
      | Inl e \<Rightarrow>
          add_keep_files F dirs (written, out @ [Error_adding_placeholder keep_file_path e]))"

text \<open>What the two loops write, from an empty writer.\<close>

definition strip :: "faults \<Rightarrow> string list \<Rightarrow> member list \<Rightarrow> member list \<times> msg list" where
  "strip F dirs src = add_keep_files F dirs (copy_items F src dirs src ([], []))"

text \<open>The body of the second \<^verbatim>\<open>try\<close>: the \<^verbatim>\<open>with\<close> statement opens the reader, then the
  writer, runs the two loops and closes the writer; then the line "Files removed" is
  printed. The result is the exception that leaves the body, if any.\<close>

definition rewrite :: "faults \<Rightarrow> path \<Rightarrow> path \<Rightarrow> string list \<Rightarrow> filesystem
    \<Rightarrow> exn option \<times> msg list \<times> filesystem" where
  "rewrite F pk3_file temp_pk3 dirs fs =
     (case ZipFile_r F pk3_file fs of
        Inl e \<Rightarrow> (Some e, [], fs)
      | Inr src \<Rightarrow>
          (case ZipFile_w F temp_pk3 fs of
             Inl e \<Rightarrow> (Some e, [], fs)
           | Inr fs1 \<Rightarrow>
               (case strip F dirs src of
                  (written, out) \<Rightarrow>
                    (case ZipFile_close F temp_pk3 written fs1 of
                       (Some e, fs2) \<Rightarrow> (Some e, out, fs2)
                     | (None, fs2) \<Rightarrow> (None, out @ [Files_removed pk3_file], fs2)))))"

text \<open>The two handlers of the second \<^verbatim>\<open>try\<close> end with \<^verbatim>\<open>os.remove(backup_file)\<close>, which
  is not inside a \<^verbatim>\<open>try\<close> of its own: what it raises leaves \<^verbatim>\<open>backup_pk3\<close>.\<close>

definition remove_backup :: "faults \<Rightarrow> path \<Rightarrow> msg list \<Rightarrow> filesystem
    \<Rightarrow> exn option \<times> msg list \<times> filesystem" where
  "remove_backup F backup_file out fs =
     (case os_remove F backup_file fs of
        Inl e \<Rightarrow> (Some e, out, fs)
      | Inr fs' \<Rightarrow> (None, out, fs'))"

text \<open>The last \<^verbatim>\<open>try\<close>: remove the original, rename the temporary file.\<close>

definition replace_original :: "faults \<Rightarrow> path \<Rightarrow> path \<Rightarrow> msg list \<Rightarrow> filesystem
    \<Rightarrow> exn option \<times> msg list \<times> filesystem" where
  "replace_original F pk3_file temp_pk3 out fs =
     (case os_remove F pk3_file fs of
        Inl e \<Rightarrow> (None, out @ [Error_replacing e], fs)
      | Inr fs1 \<Rightarrow>
          (case os_rename F temp_pk3 pk3_file fs1 of
             Inl e \<Rightarrow> (None, out @ [Error_replacing e], fs1)
           | Inr fs2 \<Rightarrow> (None, out @ [Original_modified pk3_file], fs2)))"

definition backup_pk3 :: "faults \<Rightarrow> path \<Rightarrow> path \<Rightarrow> string list \<Rightarrow> filesystem
    \<Rightarrow> exn option \<times> msg list \<times> filesystem" where
  "backup_pk3 F pk3_file backup_file dirs_to_clear fs =
     (if \<not> path_exists fs pk3_file then (None, [Error_file_not_found pk3_file], fs)
      else
        let out0 = (if path_exists fs backup_file then [Warning_backup_exists backup_file] else [])
        in (case copyfile F pk3_file backup_file fs of
              (Some OSError, fs1) \<Rightarrow> (None, out0 @ [Error_creating_backup OSError], fs1)
            | (Some e, fs1) \<Rightarrow> (Some e, out0, fs1)
            | (None, fs1) \<Rightarrow>
                let out1 = out0 @ [Backup_created backup_file];
                    temp_pk3 = ''temp_'' @ pk3_file
                in (case rewrite F pk3_file temp_pk3 dirs_to_clear fs1 of
                      (Some BadZipFile, out2, fs2) \<Rightarrow>
                        remove_backup F backup_file (out1 @ out2 @ [Error_not_valid_zip pk3_file]) fs2
                    | (Some e, out2, fs2) \<Rightarrow>
                        remove_backup F backup_file (out1 @ out2 @ [Error_during_modification e]) fs2
                    | (None, out2, fs2) \<Rightarrow>
                        replace_original F pk3_file temp_pk3 (out1 @ out2) fs2)))"

subsection \<open>restore_pk3\<close>

text \<open>Both handlers are \<^verbatim>\<open>except OSError\<close>, and \<open>OSError\<close> is all that \<open>os_remove\<close> and
  \<open>os_rename\<close> raise.\<close>

definition restore_pk3 :: "faults \<Rightarrow> path \<Rightarrow> path \<Rightarrow> filesystem
    \<Rightarrow> exn option \<times> msg list \<times> filesystem" where
  "restore_pk3 F pk3_file backup_file fs =
     (if \<not> path_exists fs backup_file then (None, [Error_backup_not_found backup_file], fs)
      else
        (case (if path_exists fs pk3_file
               then (case os_remove F pk3_file fs of
                       Inl e \<Rightarrow> Inl [Removing_existing pk3_file, Error_removing pk3_file e]
                     | Inr fs1 \<Rightarrow> Inr ([Removing_existing pk3_file], fs1))
               else Inr ([], fs)) of
           Inl out \<Rightarrow> (None, out, fs)
         | Inr (out, fs1) \<Rightarrow>
             (case os_rename F backup_file pk3_file fs1 of
                Inl e \<Rightarrow> (None, out @ [Error_restoring e], fs1)
              | Inr fs2 \<Rightarrow> (None, out @ [Restored_from_backup pk3_file], fs2))))"

text \<open>The environment in which no call is refused.\<close>

definition no_faults :: faults where
  "no_faults =
     \<lparr>copy_fault = (\<lambda>src dst. Copied), remove_raises = (\<lambda>p. False),
      rename_raises = (\<lambda>src dst. False), open_raises = (\<lambda>p. False),
      create_raises = (\<lambda>p. False), writestr_raises = (\<lambda>written name. False),
      close_raises = (\<lambda>p. False)\<rparr>"

subsection \<open>Notions used to state the properties\<close>

text \<open>The lines of the two inner handlers: an entry that was not copied, a placeholder that
  was not added.\<close>

fun is_entry_error :: "msg \<Rightarrow> bool" where
  "is_entry_error (Error_copying_file name e) = True"
| "is_entry_error (Error_adding_placeholder name e) = True"
| "is_entry_error m = False"

definition entry_errors :: "msg list \<Rightarrow> msg list" where
  "entry_errors out = filter is_entry_error out"

text \<open>A string without the NUL character: the names that the ZIP library stores as they
  are given.\<close>

definition nul_free :: "string \<Rightarrow> bool" where
  "nul_free s = (CHR 0x00 \<notin> set s)"

text \<open>The lines the two loops can print.\<close>

fun is_loop_msg :: "msg \<Rightarrow> bool" where
  "is_loop_msg (Error_copying_file name e) = True"
| "is_loop_msg (Added_placeholder name) = True"
| "is_loop_msg (Error_adding_placeholder name e) = True"
| "is_loop_msg m = False"

text \<open>What one successful iteration of each loop appends to the writer, and the items the
  first loop does not exclude.\<close>

definition copied :: "member list \<Rightarrow> member \<Rightarrow> member" where
  "copied src item = \<lparr>filename = filename item, stored = zip_read src (filename item)\<rparr>"

definition placeholder :: "string \<Rightarrow> member" where
  "placeholder dir_path = \<lparr>filename = os_path_join dir_path ''.keep'', stored = Inr []\<rparr>"

definition kept :: "string list \<Rightarrow> member list \<Rightarrow> member list" where
  "kept dirs items = filter (\<lambda>item. \<not> should_exclude (filename item) dirs) items"

definition readable :: "member list \<Rightarrow> member \<Rightarrow> bool" where
  "readable src item = (\<not> isl (zip_read src (filename item)))"

subsection \<open>Concrete inputs\<close>

text \<open>The archive of the scenario with four entries, the two directories that \<^verbatim>\<open>main\<close>
  passes, and the filesystem before and after the backup.\<close>

definition example_archive :: "member list" where
  "example_archive =
     [\<lparr>filename = ''a.txt'', stored = Inr ''A''\<rparr>,
      \<lparr>filename = ''ext_data/mb2/character/foo.cfg'', stored = Inr ''F''\<rparr>,
      \<lparr>filename = ''ext_data/mb2/teamconfig/bar.cfg'', stored = Inr ''B''\<rparr>,
      \<lparr>filename = ''readme.md'', stored = Inr ''R''\<rparr>]"

definition stripped_archive :: "member list" where
  "stripped_archive =
     [\<lparr>filename = ''a.txt'', stored = Inr ''A''\<rparr>,
      \<lparr>filename = ''readme.md'', stored = Inr ''R''\<rparr>,
      \<lparr>filename = ''ext_data/mb2/character/.keep'', stored = Inr []\<rparr>,
      \<lparr>filename = ''ext_data/mb2/teamconfig/.keep'', stored = Inr []\<rparr>]"

definition DIRS_TO_CLEAR :: "string list" where
  "DIRS_TO_CLEAR = [''ext_data/mb2/character/'', ''ext_data/mb2/teamconfig/'']"

definition example_fs :: filesystem where
  "example_fs = [''MBAssets3.pk3'' \<mapsto> Zip example_archive]"

definition stripped_fs :: filesystem where
  "stripped_fs =
     [''MBAssets3.pk3.bak'' \<mapsto> Zip example_archive, ''MBAssets3.pk3'' \<mapsto> Zip stripped_archive]"

text \<open>An archive with two entries of one name, a file that is no archive, and two
  environments that refuse one deletion each.\<close>

definition duplicate_archive :: "member list" where
  "duplicate_archive =
     [\<lparr>filename = ''a.txt'', stored = Inr ''first''\<rparr>,
      \<lparr>filename = ''a.txt'', stored = Inr ''second''\<rparr>]"

definition text_fs :: filesystem where
  "text_fs = [''MBAssets3.pk3'' \<mapsto> NotZip ''plain text'']"

definition locked_backup :: faults where
  "locked_backup = no_faults\<lparr>remove_raises := (\<lambda>p. p = ''MBAssets3.pk3.bak'')\<rparr>"

definition locked_archive :: faults where
  "locked_archive = no_faults\<lparr>remove_raises := (\<lambda>p. p = ''MBAssets3.pk3'')\<rparr>"

text \<open>An environment in which the placeholder of the second directory cannot be written.\<close>

definition keep_refused :: faults where
  "keep_refused =
     no_faults\<lparr>writestr_raises := (\<lambda>written name. name = ''ext_data/mb2/teamconfig/.keep'')\<rparr>"

text \<open>What the two loops write for the example archive when the first directory is given
  without its final slash, and what they write for the archive with two entries of one
  name.\<close>

definition slashless_result :: "member list" where
  "slashless_result =
     [\<lparr>filename = ''a.txt'', stored = Inr ''A''\<rparr>,
      \<lparr>filename = ''ext_data/mb2/teamconfig/bar.cfg'', stored = Inr ''B''\<rparr>,
      \<lparr>filename = ''readme.md'', stored = Inr ''R''\<rparr>,
      \<lparr>filename = ''ext_data/mb2/character/.keep'', stored = Inr []\<rparr>]"

definition duplicate_result :: "member list" where
  "duplicate_result =
     [\<lparr>filename = ''a.txt'', stored = Inr ''second''\<rparr>,
      \<lparr>filename = ''a.txt'', stored = Inr ''second''\<rparr>,
      \<lparr>filename = ''ext_data/mb2/character/.keep'', stored = Inr []\<rparr>,
      \<lparr>filename = ''ext_data/mb2/teamconfig/.keep'', stored = Inr []\<rparr>]"

section \<open>Properties of the loops and of the calls\<close>

lemma should_exclude_iff: "should_exclude name dirs \<longleftrightarrow> (\<exists>p\<in>set dirs. prefix p name)"
  by (induction dirs) (auto simp: startswith_def)

lemma copy_items_out: "\<exists>extra. snd (copy_items F src dirs items (w, out)) = out @ extra"
proof (induction items arbitrary: w out)
  case Nil
  then show ?case by simp
next
  case (Cons item items)
  show ?case
  proof (cases "should_exclude (filename item) dirs")
    case True
    then show ?thesis using Cons.IH[of w out] by simp
  next
    case False
    show ?thesis
    proof (cases "zip_read src (filename item)")
      case (Inl e)
      obtain extra where "snd (copy_items F src dirs items (w, out @ [Error_copying_file (filename item) e])) = (out @ [Error_copying_file (filename item) e]) @ extra"
        using Cons.IH by blast
      then show ?thesis using False Inl by simp
    next
      case (Inr data)
      show ?thesis
      proof (cases "writestr F w (filename item) data")
        case (Inl e)
        obtain extra where "snd (copy_items F src dirs items (w, out @ [Error_copying_file (filename item) e])) = (out @ [Error_copying_file (filename item) e]) @ extra"
          using Cons.IH by blast
        then show ?thesis using False Inr Inl by simp
      next
        case (Inr w')
        then show ?thesis using False \<open>zip_read src (filename item) = Inr data\<close> Cons.IH[of w' out] by simp
      qed
    qed
  qed
qed

lemma add_keep_files_out: "\<exists>extra. snd (add_keep_files F dirs (w, out)) = out @ extra"
proof (induction dirs arbitrary: w out)
  case Nil
  then show ?case by simp
next
  case (Cons d dirs)
  show ?case
  proof (cases "writestr F w (os_path_join d ''.keep'') []")
    case (Inl e)
    obtain extra where "snd (add_keep_files F dirs (w, out @ [Error_adding_placeholder (os_path_join d ''.keep'') e])) = (out @ [Error_adding_placeholder (os_path_join d ''.keep'') e]) @ extra"
      using Cons.IH by blast
    then show ?thesis using Inl by simp
  next
    case (Inr w')
    obtain extra where "snd (add_keep_files F dirs (w', out @ [Added_placeholder (os_path_join d ''.keep'')])) = (out @ [Added_placeholder (os_path_join d ''.keep'')]) @ extra"
      using Cons.IH by blast
    then show ?thesis using Inr by simp
  qed
qed

lemma copy_items_quiet:
  "copy_items F src dirs items (w, out) = (w', out') \<Longrightarrow> \<forall>m\<in>set out'. \<not> is_entry_error m \<Longrightarrow>
     w' = w @ map (copied src) (kept dirs items) \<and> out' = out"
proof (induction items arbitrary: w out)
  case Nil
  then show ?case by (simp add: kept_def)
next
  case (Cons item items)
  show ?case
  proof (cases "should_exclude (filename item) dirs")
    case True
    then show ?thesis using Cons by (simp add: kept_def)
  next
    case False
    have no_err: False if run: "copy_items F src dirs items (w, out @ [Error_copying_file (filename item) e]) = (w', out')" for e
    proof -
      obtain extra where "out' = (out @ [Error_copying_file (filename item) e]) @ extra"
        using copy_items_out[of F src dirs items w "out @ [Error_copying_file (filename item) e]"] run by auto
      then show False using Cons.prems(2) by auto
    qed
    show ?thesis
    proof (cases "zip_read src (filename item)")
      case (Inl e)
      then have "copy_items F src dirs items (w, out @ [Error_copying_file (filename item) e]) = (w', out')"
        using False Cons.prems(1) by simp
      then show ?thesis using no_err by blast
    next
      case (Inr data)
      show ?thesis
      proof (cases "writestr F w (filename item) data")
        case (Inl e)
        then have "copy_items F src dirs items (w, out @ [Error_copying_file (filename item) e]) = (w', out')"
          using False Inr Cons.prems(1) by simp
        then show ?thesis using no_err by blast
      next
        case w': (Inr w1)
        then have w1: "w1 = w @ [copied src item]"
          using Inr by (simp add: writestr_def copied_def split: if_splits)
        have "copy_items F src dirs items (w1, out) = (w', out')"
          using False Inr w' Cons.prems(1) by simp
        then have "w' = w1 @ map (copied src) (kept dirs items) \<and> out' = out"
          using Cons.IH Cons.prems(2) by blast
        then show ?thesis using w1 False by (simp add: kept_def)
      qed
    qed
  qed
qed

lemma add_keep_files_quiet:
  "add_keep_files F dirs (w, out) = (w', out') \<Longrightarrow> \<forall>m\<in>set out'. \<not> is_entry_error m \<Longrightarrow>
     w' = w @ map placeholder dirs"
proof (induction dirs arbitrary: w out)
  case Nil
  then show ?case by simp
next
  case (Cons d dirs)
  show ?case
  proof (cases "writestr F w (os_path_join d ''.keep'') []")
    case (Inl e)
    then have run: "add_keep_files F dirs (w, out @ [Error_adding_placeholder (os_path_join d ''.keep'') e]) = (w', out')"
      using Cons.prems(1) by simp
    obtain extra where "out' = (out @ [Error_adding_placeholder (os_path_join d ''.keep'') e]) @ extra"
      using add_keep_files_out[of F dirs w "out @ [Error_adding_placeholder (os_path_join d ''.keep'') e]"] run by auto
    then show ?thesis using Cons.prems(2) by auto
  next
    case (Inr w1)
    then have w1: "w1 = w @ [placeholder d]"
      by (simp add: writestr_def placeholder_def split: if_splits)
    have "add_keep_files F dirs (w1, out @ [Added_placeholder (os_path_join d ''.keep'')]) = (w', out')"
      using Inr Cons.prems(1) by simp
    then have "w' = w1 @ map placeholder dirs"
      using Cons.IH Cons.prems(2) by blast
    then show ?thesis using w1 by simp
  qed
qed

lemma strip_quiet:
  assumes "strip F dirs src = (w, out)" and "\<forall>m\<in>set out. \<not> is_entry_error m"
  shows "w = map (copied src) (kept dirs src) @ map placeholder dirs"
proof -
  obtain w1 out1 where c: "copy_items F src dirs src ([], []) = (w1, out1)"
    by (cases "copy_items F src dirs src ([], [])")
  then have a: "add_keep_files F dirs (w1, out1) = (w, out)"
    using assms(1) by (simp add: strip_def)
  obtain extra where "out = out1 @ extra"
    using add_keep_files_out[of F dirs w1 out1] a by auto
  then have "\<forall>m\<in>set out1. \<not> is_entry_error m"
    using assms(2) by auto
  then have "w1 = map (copied src) (kept dirs src)"
    using copy_items_quiet[OF c] by simp
  then show ?thesis
    using add_keep_files_quiet[OF a assms(2)] by simp
qed

lemma os_path_join_keep: "dir_path = [] \<or> suffix ''/'' dir_path \<Longrightarrow> os_path_join dir_path ''.keep'' = dir_path @ ''.keep''"
  by (auto simp: os_path_join_def startswith_def endswith_def)

lemma os_path_join_prefix: "prefix dir_path (os_path_join dir_path ''.keep'')"
  by (simp add: os_path_join_def startswith_def)

lemma copy_items_msgs:
  "list_all is_loop_msg out \<Longrightarrow> list_all is_loop_msg (snd (copy_items F src dirs items (w, out)))"
  by (induction items arbitrary: w out) (simp_all split: sum.splits)

lemma add_keep_files_msgs:
  "list_all is_loop_msg out \<Longrightarrow> list_all is_loop_msg (snd (add_keep_files F dirs (w, out)))"
  by (induction dirs arbitrary: w out) (simp_all add: Let_def split: sum.splits)

lemma strip_msgs: "\<forall>m\<in>set (snd (strip F dirs src)). is_loop_msg m"
proof -
  obtain w1 out1 where c: "copy_items F src dirs src ([], []) = (w1, out1)"
    by (cases "copy_items F src dirs src ([], [])")
  have "list_all is_loop_msg out1"
    using copy_items_msgs[of "[]" F src dirs src "[]"] c by simp
  then show ?thesis
    using add_keep_files_msgs[of out1 F dirs w1] c by (simp add: strip_def list_all_iff)
qed

lemma rewrite_cases:
  assumes "rewrite F pk3 temp dirs fs = (r, out, fs2)"
  shows "(r = None \<and> (\<exists>src. fs pk3 = Some (Zip src) \<and> out = snd (strip F dirs src) @ [Files_removed pk3]
            \<and> fs2 = fs(temp \<mapsto> Zip (fst (strip F dirs src)))))
       \<or> (r \<noteq> None \<and> (\<forall>m\<in>set out. is_loop_msg m))"
proof (cases "ZipFile_r F pk3 fs")
  case (Inl e)
  then show ?thesis using assms by (auto simp: rewrite_def)
next
  case src: (Inr src)
  then have fs: "fs pk3 = Some (Zip src)"
    by (auto simp: ZipFile_r_def split: option.splits if_splits fdata.splits)
  show ?thesis
  proof (cases "ZipFile_w F temp fs")
    case (Inl e)
    then show ?thesis using assms src by (auto simp: rewrite_def)
  next
    case (Inr fs1)
    then have fs1: "fs1 = fs(temp \<mapsto> NotZip [])"
      by (auto simp: ZipFile_w_def split: if_splits)
    obtain w sout where s: "strip F dirs src = (w, sout)"
      by (cases "strip F dirs src")
    have loop: "\<forall>m\<in>set sout. is_loop_msg m"
      using strip_msgs[of F dirs src] s by simp
    show ?thesis
    proof (cases "close_raises F temp")
      case True
      then have "r = Some OSError \<and> out = sout"
        using assms src Inr s by (simp add: rewrite_def ZipFile_close_def)
      then show ?thesis using loop by simp
    next
      case False
      then have "r = None \<and> out = sout @ [Files_removed pk3] \<and> fs2 = fs1(temp \<mapsto> Zip w)"
        using assms src Inr s by (auto simp add: rewrite_def ZipFile_close_def)
      then show ?thesis using fs fs1 s by simp
    qed
  qed
qed

lemma remove_backup_out: "remove_backup F bak out fs = (r, out', fs') \<Longrightarrow> out' = out"
  by (auto simp: remove_backup_def split: sum.splits)

lemma replace_original_cases:
  assumes "replace_original F pk3 temp out fs = (r, out', fs')"
  shows "r = None \<and> ((\<exists>e. out' = out @ [Error_replacing e])
      \<or> (out' = out @ [Original_modified pk3] \<and> fs pk3 \<noteq> None \<and>
           (\<exists>d. (fs(pk3 := None)) temp = Some d \<and> fs' = (if temp = pk3 then fs(pk3 := None) else (fs(pk3 := None, temp := None))(pk3 \<mapsto> d)))))"
  using assms
  by (auto simp: replace_original_def os_remove_def os_rename_def split: sum.splits if_splits option.splits)

lemma copyfile_cases:
  assumes "copyfile F src dst fs = (r, fs1)"
  shows "(r = Some OSError) \<or> (r = None \<and> src \<noteq> dst \<and> (\<exists>d. fs src = Some d \<and> fs1 = fs(dst \<mapsto> d)))"
  using assms
  by (auto simp: copyfile_def split: option.splits if_splits copy_outcome.splits)

lemma backup_pk3_success:
  assumes run: "backup_pk3 F pk3 bak dirs fs = (r, out, fs')"
    and ok: "Original_modified pk3 \<in> set out"
  shows "\<exists>src. fs pk3 = Some (Zip src) \<and> pk3 \<noteq> bak \<and> r = None
     \<and> out = (if fs bak \<noteq> None then [Warning_backup_exists bak] else []) @ [Backup_created bak]
            @ snd (strip F dirs src) @ [Files_removed pk3, Original_modified pk3]
     \<and> fs' = (fs(bak \<mapsto> Zip src, ''temp_'' @ pk3 := None))(pk3 \<mapsto> Zip (fst (strip F dirs src)))"
proof -
  let ?temp = "''temp_'' @ pk3"
  let ?out0 = "if fs bak \<noteq> None then [Warning_backup_exists bak] else []"
  have ex: "fs pk3 \<noteq> None"
    using run ok by (auto simp: backup_pk3_def path_exists_def split: if_splits)
  obtain r1 fs1 where c: "copyfile F pk3 bak fs = (r1, fs1)"
    by (cases "copyfile F pk3 bak fs")
  have r1: "r1 = None"
  proof (rule ccontr)
    assume "r1 \<noteq> None"
    then have "r1 = Some OSError" using copyfile_cases[OF c] by auto
    then show False using run ok ex c by (auto simp: backup_pk3_def path_exists_def)
  qed
  then obtain d where d: "pk3 \<noteq> bak" "fs pk3 = Some d" "fs1 = fs(bak \<mapsto> d)"
    using copyfile_cases[OF c] by auto
  obtain r2 out2 fs2 where w: "rewrite F pk3 ?temp dirs fs1 = (r2, out2, fs2)"
    by (cases "rewrite F pk3 ?temp dirs fs1") auto
  have r2: "r2 = None"
  proof (rule ccontr)
    assume n: "r2 \<noteq> None"
    then have loop: "\<forall>m\<in>set out2. is_loop_msg m"
      using rewrite_cases[OF w] by auto
    from n obtain e where e: "r2 = Some e" by auto
    obtain m where rb: "remove_backup F bak (?out0 @ [Backup_created bak] @ out2 @ [m]) fs2 = (r, out, fs')"
      and m: "m = Error_not_valid_zip pk3 \<or> m = Error_during_modification e"
      using run ex c r1 w e
      by (cases e) (auto simp: backup_pk3_def path_exists_def Let_def)
    have "out = ?out0 @ [Backup_created bak] @ out2 @ [m]"
      using remove_backup_out[OF rb] .
    then show False using ok loop m by (auto split: if_splits)
  qed
  then obtain src where src: "fs1 pk3 = Some (Zip src)"
      "out2 = snd (strip F dirs src) @ [Files_removed pk3]"
      "fs2 = fs1(?temp \<mapsto> Zip (fst (strip F dirs src)))"
    using rewrite_cases[OF w] by auto
  have rp: "replace_original F pk3 ?temp (?out0 @ [Backup_created bak] @ out2) fs2 = (r, out, fs')"
    using run ex c r1 w r2 by (auto simp: backup_pk3_def path_exists_def Let_def)
  have "\<not> is_loop_msg (Original_modified pk3)"
    by simp
  then have loop: "Original_modified pk3 \<notin> set (snd (strip F dirs src))"
    using strip_msgs[of F dirs src] by blast
  have "\<not> (\<exists>e. out = (?out0 @ [Backup_created bak] @ out2) @ [Error_replacing e])"
    using ok loop src(2) by (auto split: if_splits)
  then have fin: "r = None" "out = (?out0 @ [Backup_created bak] @ out2) @ [Original_modified pk3]"
     "fs' = (fs2(pk3 := None, ?temp := None))(pk3 \<mapsto> Zip (fst (strip F dirs src)))"
    using replace_original_cases[OF rp] src(3) by auto
  have "fs pk3 = Some (Zip src)" using src(1) d by simp
  moreover have "fs' = (fs(bak \<mapsto> Zip src, ?temp := None))(pk3 \<mapsto> Zip (fst (strip F dirs src)))"
    using fin(3) src(3) d src(1) by (auto simp: fun_eq_iff)
  ultimately show ?thesis using d(1) fin(1,2) src(2) by simp
qed

lemma zip_read_member:
  assumes "n \<in> filename ` set ms"
  shows "\<exists>m\<in>set ms. filename m = n \<and> zip_read ms n = stored m"
proof -
  let ?al = "rev (map (\<lambda>m. (filename m, m)) ms)"
  have "n \<in> fst ` set ?al" using assms by force
  then obtain m where m: "map_of ?al n = Some m"
    by (cases "map_of ?al n") (auto simp: map_of_eq_None_iff)
  then have "(n, m) \<in> set ?al" by (rule map_of_SomeD)
  then have "m \<in> set ms \<and> filename m = n" by auto
  then show ?thesis using m by (auto simp: zip_read_def NameToInfo_def)
qed

lemma zip_read_distinct:
  assumes "distinct (map filename ms)" and "m \<in> set ms"
  shows "zip_read ms (filename m) = stored m"
proof -
  let ?al = "rev (map (\<lambda>m. (filename m, m)) ms)"
  have "map fst ?al = rev (map filename ms)" by (simp add: rev_map comp_def)
  then have "distinct (map fst ?al)" using assms(1) by simp
  moreover have "(filename m, m) \<in> set ?al" using assms(2) by auto
  ultimately have "map_of ?al (filename m) = Some m" by (rule map_of_is_SomeI)
  then show ?thesis by (simp add: zip_read_def NameToInfo_def)
qed

lemma copied_distinct:
  "distinct (map filename ms) \<Longrightarrow> m \<in> set ms \<Longrightarrow> copied ms m = m"
  by (simp add: copied_def zip_read_distinct)

lemma copy_items_no_write_fault:
  assumes "\<forall>w n. \<not> writestr_raises F w n"
  shows "fst (copy_items F src dirs items (w, out)) =
     w @ map (copied src) (filter (readable src) (kept dirs items))"
proof (induction items arbitrary: w out)
  case Nil
  then show ?case by (simp add: kept_def)
next
  case (Cons item items)
  show ?case
  proof (cases "should_exclude (filename item) dirs")
    case True
    then show ?thesis using Cons.IH by (simp add: kept_def)
  next
    case False
    show ?thesis
    proof (cases "zip_read src (filename item)")
      case (Inl e)
      then show ?thesis using False Cons.IH by (simp add: kept_def readable_def)
    next
      case (Inr data)
      then have "writestr F w (filename item) data = Inr (w @ [copied src item])"
        using assms by (simp add: writestr_def copied_def)
      then show ?thesis using False Inr Cons.IH by (simp add: kept_def readable_def)
    qed
  qed
qed

lemma add_keep_files_no_write_fault:
  assumes "\<forall>w n. \<not> writestr_raises F w n"
  shows "fst (add_keep_files F dirs (w, out)) = w @ map placeholder dirs"
proof (induction dirs arbitrary: w out)
  case Nil
  then show ?case by simp
next
  case (Cons d dirs)
  have "writestr F w (os_path_join d ''.keep'') [] = Inr (w @ [placeholder d])"
    using assms by (simp add: writestr_def placeholder_def)
  then show ?case using Cons.IH by simp
qed

lemma strip_no_write_fault:
  assumes "\<forall>w n. \<not> writestr_raises F w n"
  shows "fst (strip F dirs src) =
     map (copied src) (filter (readable src) (kept dirs src)) @ map placeholder dirs"
proof -
  obtain w1 out1 where c: "copy_items F src dirs src ([], []) = (w1, out1)"
    by (cases "copy_items F src dirs src ([], [])")
  then have "w1 = map (copied src) (filter (readable src) (kept dirs src))"
    using copy_items_no_write_fault[OF assms, of src dirs src "[]" "[]"] by simp
  then show ?thesis
    using c add_keep_files_no_write_fault[OF assms, of dirs w1 out1] by (simp add: strip_def)
qed

lemma placeholder_excluded: "d \<in> set dirs \<Longrightarrow> should_exclude (filename (placeholder d)) dirs"
  using os_path_join_prefix[of d] by (auto simp: should_exclude_iff placeholder_def)

lemma kept_placeholders: "kept dirs (map placeholder dirs) = []"
  by (simp add: kept_def filter_empty_conv placeholder_excluded)

subsection \<open>The two operations on the concrete inputs\<close>

lemmas call_defs =
  path_exists_def copyfile_def os_remove_def os_rename_def os_path_join_def startswith_def
  endswith_def suffix_to_prefix Let_def ZipFile_r_def ZipFile_w_def ZipFile_close_def
  NameToInfo_def zip_read_def writestr_def strip_def rewrite_def remove_backup_def
  replace_original_def backup_pk3_def restore_pk3_def no_faults_def

lemma example_strip:
  "strip no_faults DIRS_TO_CLEAR example_archive =
     (stripped_archive,
      [Added_placeholder ''ext_data/mb2/character/.keep'',
       Added_placeholder ''ext_data/mb2/teamconfig/.keep''])"
  by (simp add: call_defs example_archive_def stripped_archive_def DIRS_TO_CLEAR_def)

lemma example_backup:
  "backup_pk3 no_faults ''MBAssets3.pk3'' ''MBAssets3.pk3.bak'' DIRS_TO_CLEAR example_fs =
     (None,
      [Backup_created ''MBAssets3.pk3.bak'',
       Added_placeholder ''ext_data/mb2/character/.keep'',
       Added_placeholder ''ext_data/mb2/teamconfig/.keep'',
       Files_removed ''MBAssets3.pk3'', Original_modified ''MBAssets3.pk3''],
      stripped_fs)"
  by (simp add: backup_pk3_def path_exists_def copyfile_def example_fs_def stripped_fs_def
      no_faults_def rewrite_def ZipFile_r_def ZipFile_w_def ZipFile_close_def
      replace_original_def os_remove_def os_rename_def example_strip [unfolded no_faults_def])

lemma example_restore:
  "restore_pk3 no_faults ''MBAssets3.pk3'' ''MBAssets3.pk3.bak'' stripped_fs =
     (None,
      [Removing_existing ''MBAssets3.pk3'', Restored_from_backup ''MBAssets3.pk3''],
      example_fs)"
  by (simp add: restore_pk3_def path_exists_def os_remove_def os_rename_def no_faults_def
      stripped_fs_def example_fs_def)

subsection \<open>Runs without entry errors\<close>

lemma quiet_iff: "entry_errors out = [] \<longleftrightarrow> (\<forall>m\<in>set out. \<not> is_entry_error m)"
  by (simp add: entry_errors_def filter_empty_conv)

lemma entry_errors_append: "entry_errors (xs @ ys) = entry_errors xs @ entry_errors ys"
  by (simp add: entry_errors_def)

subsection \<open>Archives whose entry names are distinct\<close>

text \<open>When no two entries share a name, the name dictionary returns each entry's own
  bytes, and a run without entry errors writes the kept entries as they are, followed by
  the placeholders (for prefixes without NUL).\<close>

lemma strip_distinct_names:
  assumes "distinct (map filename src)" and "strip F dirs src = (written, out)"
    and "entry_errors out = []" and "list_all nul_free dirs"
  shows "written = kept dirs src @ map placeholder dirs"
proof -
  have "written = map (copied src) (kept dirs src) @ map placeholder dirs"
    using strip_quiet [OF assms(2)] assms(3) by (simp add: quiet_iff)
  moreover have "map (copied src) (kept dirs src) = kept dirs src"
    using assms(1) by (intro map_idI) (auto simp: kept_def copied_distinct)
  ultimately show ?thesis by simp
qed

subsection \<open>Stripping twice when no write is refused\<close>

text \<open>When \<^verbatim>\<open>writestr\<close> never raises and no prefix contains NUL, the second application
  writes the names of the first, also when the first skipped entries that could not be
  read.\<close>

lemma unrefused_strip_keeps_names:
  assumes "\<forall>w n. \<not> writestr_raises F1 w n" and "\<forall>w n. \<not> writestr_raises F2 w n"
    and "list_all nul_free dirs"
  shows "map filename (fst (strip F2 dirs (fst (strip F1 dirs src)))) = map filename (fst (strip F1 dirs src))
    \<and> set (map filename (fst (strip F2 dirs (fst (strip F1 dirs src))))) = set (map filename (fst (strip F1 dirs src)))"
proof -
  let ?K = "map (copied src) (filter (readable src) (kept dirs src))"
  let ?P = "map placeholder dirs"
  let ?O = "?K @ ?P"
  have O: "fst (strip F1 dirs src) = ?O"
    by (rule strip_no_write_fault[OF assms(1)])
  have keptK: "kept dirs ?K = ?K"
    by (auto simp: kept_def copied_def filter_id_conv)
  have stored: "\<not> isl (stored m)" if "m \<in> set ?O" for m
    using that by (auto simp: copied_def readable_def placeholder_def)
  have "readable ?O k" if "k \<in> set ?O" for k
  proof -
    have "filename k \<in> filename ` set ?O" using that by blast
    then obtain m where "m \<in> set ?O" "zip_read ?O (filename k) = stored m"
      using zip_read_member[of "filename k" ?O] by blast
    then show ?thesis using stored by (simp add: readable_def)
  qed
  then have "filter (readable ?O) ?K = ?K"
    by (simp add: filter_id_conv)
  then have "filter (readable ?O) (kept dirs ?O) = ?K"
    using keptK kept_placeholders[of dirs] by (simp add: kept_def)
  then have "fst (strip F2 dirs ?O) = map (copied ?O) ?K @ ?P"
    using strip_no_write_fault[OF assms(2), of dirs ?O] by simp
  moreover have "map filename (map (copied ?O) ?K) = map filename ?K"
    by (simp add: copied_def comp_def)
  ultimately have "map filename (fst (strip F2 dirs ?O)) = map filename ?O"
    by simp
  then show ?thesis using O by simp
qed

subsection \<open>Exceptions that leave the operations\<close>

lemma restore_pk3_never_raises: "fst (restore_pk3 F pk3_file backup_file fs) = None"
  by (auto simp add: restore_pk3_def split: if_splits sum.splits option.splits prod.splits)

lemma remove_backup_raises:
  "remove_backup F backup_file out fs = (Some e, out', fs') \<Longrightarrow>
     e = OSError \<and> out' = out \<and> fs' = fs \<and> (fs backup_file = None \<or> remove_raises F backup_file)"
  by (auto simp: remove_backup_def os_remove_def split: if_splits)

lemma backup_pk3_raises_in_rollback:
  assumes "backup_pk3 F pk3_file backup_file dirs fs = (Some e, out, fs')"
  shows "e = OSError \<and> (fs' backup_file = None \<or> remove_raises F backup_file)
     \<and> (\<exists>out0 m. out = out0 @ [m]
           \<and> (m = Error_not_valid_zip pk3_file \<or> (\<exists>e'. m = Error_during_modification e')))"
proof -
  have ex: "path_exists fs pk3_file"
    using assms by (auto simp: backup_pk3_def split: if_splits)
  obtain r1 fs1 where c: "copyfile F pk3_file backup_file fs = (r1, fs1)"
    by (cases "copyfile F pk3_file backup_file fs")
  have r1: "r1 = None"
  proof (rule ccontr)
    assume "r1 \<noteq> None"
    then have "r1 = Some OSError" using copyfile_cases [OF c] by auto
    then show False using assms ex c by (simp add: backup_pk3_def)
  qed
  obtain r2 out2 fs2 where w: "rewrite F pk3_file (''temp_'' @ pk3_file) dirs fs1 = (r2, out2, fs2)"
    by (cases "rewrite F pk3_file (''temp_'' @ pk3_file) dirs fs1") auto
  let ?out1 = "(if path_exists fs backup_file then [Warning_backup_exists backup_file] else [])
      @ [Backup_created backup_file]"
  show ?thesis
  proof (cases r2)
    case None
    then have "replace_original F pk3_file (''temp_'' @ pk3_file) (?out1 @ out2) fs2 = (Some e, out, fs')"
      using assms ex c r1 w by (simp add: backup_pk3_def)
    then show ?thesis using replace_original_cases by blast
  next
    case (Some e2)
    then obtain m where rb: "remove_backup F backup_file (?out1 @ out2 @ [m]) fs2 = (Some e, out, fs')"
      and m: "m = Error_not_valid_zip pk3_file \<or> m = Error_during_modification e2"
      using assms ex c r1 w by (cases e2) (auto simp: backup_pk3_def)
    have e: "e = OSError" and o: "out = (?out1 @ out2) @ [m]"
      and f: "fs' backup_file = None \<or> remove_raises F backup_file"
      using remove_backup_raises [OF rb] by auto
    have "\<exists>out0 m. out = out0 @ [m]
        \<and> (m = Error_not_valid_zip pk3_file \<or> (\<exists>e'. m = Error_during_modification e'))"
      using o m by (intro exI [of _ "?out1 @ out2"] exI [of _ m]) auto
    then show ?thesis using e f by simp
  qed
qed

text \<open>A placeholder that cannot be written is reported and skipped, and the run goes
  on: the branch of the inner handler.\<close>

lemma refused_placeholder_skipped:
  "strip keep_refused DIRS_TO_CLEAR example_archive =
     ([\<lparr>filename = ''a.txt'', stored = Inr ''A''\<rparr>,
       \<lparr>filename = ''readme.md'', stored = Inr ''R''\<rparr>,
       \<lparr>filename = ''ext_data/mb2/character/.keep'', stored = Inr []\<rparr>],
      [Added_placeholder ''ext_data/mb2/character/.keep'',
       Error_adding_placeholder ''ext_data/mb2/teamconfig/.keep'' OSError])"
  by (simp add: call_defs keep_refused_def example_archive_def DIRS_TO_CLEAR_def)

subsection \<open>The second application of the loops\<close>

text \<open>The prefixes of \<^verbatim>\<open>main\<close> hold no NUL. In a run without entry errors the first loop
  writes the kept entries, and reading one of them back from the archive that the two
  loops wrote yields its own bytes: a placeholder never has the name of a kept entry.\<close>

lemma nul_free_dirs: "list_all nul_free DIRS_TO_CLEAR"
  by (simp add: nul_free_def DIRS_TO_CLEAR_def)

lemma copy_loop_quiet:
  assumes "entry_errors (snd (strip F dirs src)) = []"
  shows "fst (copy_items F src dirs src ([], [])) = map (copied src) (kept dirs src)"
proof -
  obtain w1 out1 where c: "copy_items F src dirs src ([], []) = (w1, out1)"
    by (cases "copy_items F src dirs src ([], [])")
  obtain extra where "snd (add_keep_files F dirs (w1, out1)) = out1 @ extra"
    using add_keep_files_out [of F dirs w1 out1] by blast
  then have "snd (strip F dirs src) = out1 @ extra"
    using c by (simp add: strip_def)
  then have "\<forall>m\<in>set out1. \<not> is_entry_error m"
    using assms by (simp add: quiet_iff)
  then show ?thesis
    using copy_items_quiet [OF c] c by simp
qed

lemma strip_fst_quiet:
  assumes "entry_errors (snd (strip F dirs src)) = []"
  shows "fst (strip F dirs src) = map (copied src) (kept dirs src) @ map placeholder dirs"
  using strip_quiet [of F dirs src "fst (strip F dirs src)" "snd (strip F dirs src)"] assms
  by (simp add: quiet_iff)

lemma kept_copied: "kept dirs (map (copied src) (kept dirs src)) = map (copied src) (kept dirs src)"
  by (auto simp: kept_def copied_def filter_id_conv)

lemma copied_again:
  assumes "k \<in> set (map (copied src) (kept dirs src))"
  shows "copied (map (copied src) (kept dirs src) @ map placeholder dirs) k = k"
proof -
  let ?K = "map (copied src) (kept dirs src)"
  let ?O = "?K @ map placeholder dirs"
  obtain i where i: "i \<in> set (kept dirs src)" "k = copied src i"
    using assms by auto
  have n: "\<not> should_exclude (filename k) dirs"
    using i by (simp add: kept_def copied_def)
  have "filename k \<in> filename ` set ?O"
    using assms by force
  then obtain m where m: "m \<in> set ?O" "filename m = filename k" "zip_read ?O (filename k) = stored m"
    using zip_read_member [of "filename k" ?O] by blast
  have "m \<in> set ?K"
  proof (rule ccontr)
    assume "m \<notin> set ?K"
    then obtain d where "d \<in> set dirs" "m = placeholder d"
      using m(1) by auto
    then have "should_exclude (filename m) dirs"
      by (simp add: placeholder_excluded)
    then show False using n m(2) by simp
  qed
  then obtain j where "m = copied src j" by auto
  then have "stored m = zip_read src (filename k)"
    using m(2) by (simp add: copied_def)
  then have "zip_read ?O (filename k) = stored k"
    using m(3) i(2) by (simp add: copied_def)
  then show ?thesis by (simp add: copied_def)
qed

section \<open>The claims\<close>

subsection \<open>A missing archive\<close>

text \<open>
  Claim C5. When the archive path does not exist, \<^verbatim>\<open>backup_pk3\<close> reports that the file was
  not found (the NotFoundError of the specification), raises nothing and returns the
  filesystem it was given: no backup is created, no temporary file is written, no file is
  changed. This holds whatever the environment refuses.
\<close>

theorem backup_missing_archive:
  "fs pk3_file = None \<Longrightarrow>
     backup_pk3 F pk3_file backup_file dirs fs = (None, [Error_file_not_found pk3_file], fs)"
  by (simp add: backup_pk3_def path_exists_def)

text \<open>The theorem at work: the directory holds the backup only.\<close>

theorem backup_missing_archive_witness:
  "[''MBAssets3.pk3.bak'' \<mapsto> Zip example_archive] ''MBAssets3.pk3'' = None \<and>
   backup_pk3 locked_backup ''MBAssets3.pk3'' ''MBAssets3.pk3.bak'' DIRS_TO_CLEAR
     [''MBAssets3.pk3.bak'' \<mapsto> Zip example_archive] =
   (None, [Error_file_not_found ''MBAssets3.pk3''],
    [''MBAssets3.pk3.bak'' \<mapsto> Zip example_archive])"
proof -
  have h: "[''MBAssets3.pk3.bak'' \<mapsto> Zip example_archive] ''MBAssets3.pk3'' = None"
    by simp
  show ?thesis
    using h backup_missing_archive
      [where fs = "[''MBAssets3.pk3.bak'' \<mapsto> Zip example_archive]"
         and pk3_file = "''MBAssets3.pk3''" and F = locked_backup
         and backup_file = "''MBAssets3.pk3.bak''" and dirs = DIRS_TO_CLEAR]
    by simp
qed

subsection \<open>A missing backup\<close>

text \<open>
  Claim C6. When the backup path does not exist, \<^verbatim>\<open>restore_pk3\<close> reports that the backup
  was not found (NotFoundError), raises nothing and returns the filesystem it was given; in
  particular the archive, if there is one, is not deleted.
\<close>

theorem restore_missing_backup:
  "fs backup_file = None \<Longrightarrow>
     restore_pk3 F pk3_file backup_file fs = (None, [Error_backup_not_found backup_file], fs)"
  by (simp add: restore_pk3_def path_exists_def)

text \<open>The theorem at work: the archive is there, the backup is not.\<close>

theorem restore_missing_backup_witness:
  "example_fs ''MBAssets3.pk3.bak'' = None \<and>
   restore_pk3 no_faults ''MBAssets3.pk3'' ''MBAssets3.pk3.bak'' example_fs =
   (None, [Error_backup_not_found ''MBAssets3.pk3.bak''], example_fs) \<and>
   example_fs ''MBAssets3.pk3'' = Some (Zip example_archive)"
proof -
  have h: "example_fs ''MBAssets3.pk3.bak'' = None"
    by (simp add: example_fs_def)
  have a: "example_fs ''MBAssets3.pk3'' = Some (Zip example_archive)"
    by (simp add: example_fs_def)
  show ?thesis
    using h a restore_missing_backup
      [where fs = example_fs and backup_file = "''MBAssets3.pk3.bak''" and F = no_faults
         and pk3_file = "''MBAssets3.pk3''"]
    by simp
qed

subsection \<open>An archive that cannot be deleted\<close>

text \<open>
  Claim C7. When the backup and the archive both exist and \<^verbatim>\<open>os.remove\<close> of the archive
  raises, \<^verbatim>\<open>restore_pk3\<close> reports the failed removal (IOError), raises nothing and
  returns the filesystem it was given: the backup is untouched at its path and the archive
  is still present.
\<close>

theorem restore_remove_fails:
  "fs backup_file \<noteq> None \<Longrightarrow> fs pk3_file \<noteq> None \<Longrightarrow> remove_raises F pk3_file \<Longrightarrow>
     restore_pk3 F pk3_file backup_file fs =
       (None, [Removing_existing pk3_file, Error_removing pk3_file OSError], fs)"
  by (simp add: restore_pk3_def path_exists_def os_remove_def)

text \<open>The theorem at work: the stripped archive is locked.\<close>

theorem restore_remove_fails_witness:
  "stripped_fs ''MBAssets3.pk3.bak'' \<noteq> None \<and> stripped_fs ''MBAssets3.pk3'' \<noteq> None \<and>
   remove_raises locked_archive ''MBAssets3.pk3'' \<and>
   restore_pk3 locked_archive ''MBAssets3.pk3'' ''MBAssets3.pk3.bak'' stripped_fs =
     (None, [Removing_existing ''MBAssets3.pk3'', Error_removing ''MBAssets3.pk3'' OSError],
      stripped_fs)"
proof -
  have b: "stripped_fs ''MBAssets3.pk3.bak'' \<noteq> None"
    by (simp add: stripped_fs_def)
  have a: "stripped_fs ''MBAssets3.pk3'' \<noteq> None"
    by (simp add: stripped_fs_def)
  have l: "remove_raises locked_archive ''MBAssets3.pk3''"
    by (simp add: locked_archive_def)
  show ?thesis
    using b a l restore_remove_fails
      [where fs = stripped_fs and backup_file = "''MBAssets3.pk3.bak''"
         and pk3_file = "''MBAssets3.pk3''" and F = locked_archive]
    by simp
qed

subsection \<open>A successful restore\<close>

text \<open>
  Claim C8. After every successful \<^verbatim>\<open>restore_pk3\<close>, that is one that prints "Restored from
  backup", the backup file no longer exists at its path: it was renamed to the archive
  path, which now holds what the backup held.
\<close>

theorem restore_consumes_backup:
  "restore_pk3 F pk3_file backup_file fs = (r, out, fs') \<Longrightarrow>
   Restored_from_backup pk3_file \<in> set out \<Longrightarrow>
     r = None \<and> fs' backup_file = None \<and> fs' pk3_file = fs backup_file \<and> fs backup_file \<noteq> None"
  by (auto simp add: restore_pk3_def path_exists_def os_remove_def os_rename_def
      split: if_splits sum.splits option.splits)

text \<open>The theorem at work: the restore of the example.\<close>

theorem restore_consumes_backup_witness:
  "restore_pk3 no_faults ''MBAssets3.pk3'' ''MBAssets3.pk3.bak'' stripped_fs =
     (None, [Removing_existing ''MBAssets3.pk3'', Restored_from_backup ''MBAssets3.pk3''],
      example_fs) \<and>
   Restored_from_backup ''MBAssets3.pk3''
     \<in> set [Removing_existing ''MBAssets3.pk3'', Restored_from_backup ''MBAssets3.pk3''] \<and>
   example_fs ''MBAssets3.pk3.bak'' = None \<and>
   example_fs ''MBAssets3.pk3'' = stripped_fs ''MBAssets3.pk3.bak''"
proof -
  have m: "Restored_from_backup ''MBAssets3.pk3''
      \<in> set [Removing_existing ''MBAssets3.pk3'', Restored_from_backup ''MBAssets3.pk3'']"
    by simp
  show ?thesis
    using example_restore m restore_consumes_backup [OF example_restore m] by simp
qed

subsection \<open>The entry names after a successful backup\<close>

text \<open>
  Claim C1, as amended, on POSIX paths. Let the archive path hold the archive \<open>A\<close>, let no
  prefix of the list contain a NUL character, and let \<^verbatim>\<open>backup_pk3\<close> succeed: it prints
  "has been modified" and no line of an entry or placeholder error. Then the archive path
  holds an archive whose entry names are, in this order, the names
  of the entries of \<open>A\<close> that start with no prefix of the list, followed by one
  placeholder for each element of the list, named \<^verbatim>\<open>os.path.join(prefix, '.keep')\<close>.
  As sets: the kept names together with the joined names. The joined name is the prefix
  followed by \<open>.keep\<close> when the prefix is empty or ends with a slash (the last conjunct),
  and the prefix followed by \<open>/.keep\<close> otherwise.
\<close>

theorem strip_entry_names:
  assumes archive: "fs pk3_file = Some (Zip A)"
    and prefixes: "list_all nul_free dirs"
    and run: "backup_pk3 F pk3_file backup_file dirs fs = (r, out, fs')"
    and modified: "Original_modified pk3_file \<in> set out"
    and quiet_run: "entry_errors out = []"
  shows "\<exists>ms. fs' pk3_file = Some (Zip ms)
     \<and> map filename ms =
          filter (\<lambda>n. \<not> should_exclude n dirs) (map filename A)
            @ map (\<lambda>p. os_path_join p ''.keep'') dirs
     \<and> set (map filename ms) =
          {n \<in> set (map filename A). \<not> (\<exists>p\<in>set dirs. prefix p n)}
            \<union> (\<lambda>p. os_path_join p ''.keep'') ` set dirs
     \<and> ((\<forall>p\<in>set dirs. p = [] \<or> endswith p ''/'') \<longrightarrow>
          set (map filename ms) =
            {n \<in> set (map filename A). \<not> (\<exists>p\<in>set dirs. prefix p n)}
              \<union> (\<lambda>p. p @ ''.keep'') ` set dirs)"
proof -
  obtain src where s: "fs pk3_file = Some (Zip src)"
    "out = (if fs backup_file \<noteq> None then [Warning_backup_exists backup_file] else [])
            @ [Backup_created backup_file]
            @ snd (strip F dirs src) @ [Files_removed pk3_file, Original_modified pk3_file]"
    "fs' = (fs(backup_file \<mapsto> Zip src, ''temp_'' @ pk3_file := None))
             (pk3_file \<mapsto> Zip (fst (strip F dirs src)))"
    using backup_pk3_success [OF run modified] by blast
  have src: "src = A" using s(1) archive by simp
  have "\<forall>m\<in>set out. \<not> is_entry_error m"
    using quiet_run by (simp add: quiet_iff)
  then have quiet: "\<forall>m\<in>set (snd (strip F dirs A)). \<not> is_entry_error m"
    using s(2) src by auto
  have w: "fst (strip F dirs A) = map (copied A) (kept dirs A) @ map placeholder dirs"
    using strip_quiet [of F dirs A "fst (strip F dirs A)" "snd (strip F dirs A)"] quiet by simp
  let ?ms = "fst (strip F dirs A)"
  have names: "map filename ?ms =
      filter (\<lambda>n. \<not> should_exclude n dirs) (map filename A)
        @ map (\<lambda>p. os_path_join p ''.keep'') dirs"
    unfolding w by (simp add: copied_def kept_def placeholder_def comp_def filter_map)
  have at_pk3: "fs' pk3_file = Some (Zip ?ms)"
    using s(3) src by simp
  have sets: "set (map filename ?ms) =
     {n \<in> set (map filename A). \<not> (\<exists>p\<in>set dirs. prefix p n)}
       \<union> (\<lambda>p. os_path_join p ''.keep'') ` set dirs"
    unfolding names by (auto simp: should_exclude_iff)
  have slash: "set (map filename ?ms) =
     {n \<in> set (map filename A). \<not> (\<exists>p\<in>set dirs. prefix p n)}
       \<union> (\<lambda>p. p @ ''.keep'') ` set dirs"
    if "\<forall>p\<in>set dirs. p = [] \<or> endswith p ''/''"
  proof -
    have "os_path_join p ''.keep'' = p @ ''.keep''" if "p \<in> set dirs" for p
      using that \<open>\<forall>p\<in>set dirs. p = [] \<or> endswith p ''/''\<close>
      by (auto simp: os_path_join_def startswith_def)
    then have "(\<lambda>p. os_path_join p ''.keep'') ` set dirs = (\<lambda>p. p @ ''.keep'') ` set dirs"
      by (intro image_cong) auto
    then show ?thesis using sets by simp
  qed
  show ?thesis
    using at_pk3 names sets slash by blast
qed

text \<open>The theorem at work: the archive of four entries and the two directories of
  \<^verbatim>\<open>main\<close>.\<close>

theorem strip_entry_names_witness:
  "example_fs ''MBAssets3.pk3'' = Some (Zip example_archive) \<and>
   list_all nul_free DIRS_TO_CLEAR \<and>
   backup_pk3 no_faults ''MBAssets3.pk3'' ''MBAssets3.pk3.bak'' DIRS_TO_CLEAR example_fs =
     (None,
      [Backup_created ''MBAssets3.pk3.bak'',
       Added_placeholder ''ext_data/mb2/character/.keep'',
       Added_placeholder ''ext_data/mb2/teamconfig/.keep'',
       Files_removed ''MBAssets3.pk3'', Original_modified ''MBAssets3.pk3''],
      stripped_fs) \<and>
   (\<exists>ms. stripped_fs ''MBAssets3.pk3'' = Some (Zip ms) \<and>
      map filename ms =
        [''a.txt'', ''readme.md'', ''ext_data/mb2/character/.keep'',
         ''ext_data/mb2/teamconfig/.keep''])"
proof -
  let ?out = "[Backup_created ''MBAssets3.pk3.bak'',
       Added_placeholder ''ext_data/mb2/character/.keep'',
       Added_placeholder ''ext_data/mb2/teamconfig/.keep'',
       Files_removed ''MBAssets3.pk3'', Original_modified ''MBAssets3.pk3'']"
  have a: "example_fs ''MBAssets3.pk3'' = Some (Zip example_archive)"
    by (simp add: example_fs_def)
  have m: "Original_modified ''MBAssets3.pk3'' \<in> set ?out"
    by simp
  have q: "entry_errors ?out = []"
    by (simp add: entry_errors_def)
  have "\<exists>ms. stripped_fs ''MBAssets3.pk3'' = Some (Zip ms) \<and>
      map filename ms =
        filter (\<lambda>n. \<not> should_exclude n DIRS_TO_CLEAR) (map filename example_archive)
          @ map (\<lambda>p. os_path_join p ''.keep'') DIRS_TO_CLEAR"
    using strip_entry_names [OF a nul_free_dirs example_backup m q] by blast
  then have "\<exists>ms. stripped_fs ''MBAssets3.pk3'' = Some (Zip ms) \<and>
      map filename ms =
        [''a.txt'', ''readme.md'', ''ext_data/mb2/character/.keep'',
         ''ext_data/mb2/teamconfig/.keep'']"
    by (simp add: example_archive_def DIRS_TO_CLEAR_def call_defs)
  then show ?thesis using a nul_free_dirs example_backup by blast
qed

text \<open>
  Claim C1 as it is stated, with a placeholder named by the prefix followed by \<open>.keep\<close>,
  fails for a prefix without a final slash (and without NUL): for the prefix
  \<open>ext_data/mb2/character\<close> the
  successful run adds \<open>ext_data/mb2/character/.keep\<close>, and the entry names are not the
  kept names together with \<open>ext_data/mb2/character.keep\<close>.
\<close>

theorem keep_name_counterexample:
  "backup_pk3 no_faults ''MBAssets3.pk3'' ''MBAssets3.pk3.bak'' [''ext_data/mb2/character'']
     example_fs =
     (None,
      [Backup_created ''MBAssets3.pk3.bak'',
       Added_placeholder ''ext_data/mb2/character/.keep'',
       Files_removed ''MBAssets3.pk3'', Original_modified ''MBAssets3.pk3''],
      [''MBAssets3.pk3.bak'' \<mapsto> Zip example_archive,
       ''MBAssets3.pk3'' \<mapsto> Zip slashless_result]) \<and>
   list_all nul_free [''ext_data/mb2/character''] \<and>
   set (map filename slashless_result) \<noteq>
     {''a.txt'', ''ext_data/mb2/teamconfig/bar.cfg'', ''readme.md''}
       \<union> {''ext_data/mb2/character'' @ ''.keep''}"
proof -
  have s: "strip no_faults [''ext_data/mb2/character''] example_archive =
      (slashless_result, [Added_placeholder ''ext_data/mb2/character/.keep''])"
    by (simp add: call_defs example_archive_def slashless_result_def)
  have b: "backup_pk3 no_faults ''MBAssets3.pk3'' ''MBAssets3.pk3.bak'' [''ext_data/mb2/character'']
     example_fs =
     (None,
      [Backup_created ''MBAssets3.pk3.bak'',
       Added_placeholder ''ext_data/mb2/character/.keep'',
       Files_removed ''MBAssets3.pk3'', Original_modified ''MBAssets3.pk3''],
      [''MBAssets3.pk3.bak'' \<mapsto> Zip example_archive,
       ''MBAssets3.pk3'' \<mapsto> Zip slashless_result])"
    by (simp add: backup_pk3_def path_exists_def copyfile_def example_fs_def
      no_faults_def rewrite_def ZipFile_r_def ZipFile_w_def ZipFile_close_def
      replace_original_def os_remove_def os_rename_def s [unfolded no_faults_def])
  have "''ext_data/mb2/character/.keep'' \<in> set (map filename slashless_result)"
    by (simp add: slashless_result_def)
  moreover have "''ext_data/mb2/character/.keep'' \<notin>
     {''a.txt'', ''ext_data/mb2/teamconfig/bar.cfg'', ''readme.md''}
       \<union> {''ext_data/mb2/character'' @ ''.keep''}"
    by simp
  ultimately have differ: "set (map filename slashless_result) \<noteq>
     {''a.txt'', ''ext_data/mb2/teamconfig/bar.cfg'', ''readme.md''}
       \<union> {''ext_data/mb2/character'' @ ''.keep''}"
    by metis
  have "list_all nul_free [''ext_data/mb2/character'']"
    by (simp add: nul_free_def)
  then show ?thesis using b differ by blast
qed

subsection \<open>Backup, then restore\<close>

text \<open>
  Claim C2. Let the archive path hold the file \<open>A\<close>. If \<^verbatim>\<open>backup_pk3\<close> succeeds (it prints
  "has been modified") and \<^verbatim>\<open>restore_pk3\<close>, run next with the same two paths, succeeds
  (it prints "Restored from backup"), the archive path holds \<open>A\<close> again, byte for byte.
  The two runs may meet different environments, and the backup may have skipped entries
  or placeholders: the law does not need the absence of entry errors.
\<close>

theorem backup_restore_roundtrip:
  assumes "fs pk3_file = Some A"
    and "backup_pk3 F1 pk3_file backup_file dirs fs = (r1, out1, fs1)"
    and "Original_modified pk3_file \<in> set out1"
    and "restore_pk3 F2 pk3_file backup_file fs1 = (r2, out2, fs2)"
    and "Restored_from_backup pk3_file \<in> set out2"
  shows "fs2 pk3_file = Some A"
proof -
  obtain src where s: "fs pk3_file = Some (Zip src)" "pk3_file \<noteq> backup_file"
    "fs1 = (fs(backup_file \<mapsto> Zip src, ''temp_'' @ pk3_file := None))
             (pk3_file \<mapsto> Zip (fst (strip F1 dirs src)))"
    using backup_pk3_success [OF assms(2,3)] by blast
  have r: "fs2 pk3_file = fs1 backup_file \<and> fs1 backup_file \<noteq> None"
    using assms(4,5)
    by (auto simp add: restore_pk3_def path_exists_def os_remove_def os_rename_def
        split: if_splits sum.splits option.splits)
  have "fs1 backup_file = (if backup_file = ''temp_'' @ pk3_file then None else Some (Zip src))"
    using s(2,3) by simp
  then have "fs1 backup_file = Some (Zip src)"
    using r by (simp split: if_splits)
  then show ?thesis using r s(1) assms(1) by simp
qed

text \<open>The theorem at work: backup and restore of the example.\<close>

theorem backup_restore_roundtrip_witness:
  "example_fs ''MBAssets3.pk3'' = Some (Zip example_archive) \<and>
   backup_pk3 no_faults ''MBAssets3.pk3'' ''MBAssets3.pk3.bak'' DIRS_TO_CLEAR example_fs =
     (None,
      [Backup_created ''MBAssets3.pk3.bak'',
       Added_placeholder ''ext_data/mb2/character/.keep'',
       Added_placeholder ''ext_data/mb2/teamconfig/.keep'',
       Files_removed ''MBAssets3.pk3'', Original_modified ''MBAssets3.pk3''],
      stripped_fs) \<and>
   restore_pk3 no_faults ''MBAssets3.pk3'' ''MBAssets3.pk3.bak'' stripped_fs =
     (None,
      [Removing_existing ''MBAssets3.pk3'', Restored_from_backup ''MBAssets3.pk3''],
      example_fs) \<and>
   example_fs ''MBAssets3.pk3'' = Some (Zip example_archive)"
proof -
  have a: "example_fs ''MBAssets3.pk3'' = Some (Zip example_archive)"
    by (simp add: example_fs_def)
  have m: "Original_modified ''MBAssets3.pk3'' \<in> set
      [Backup_created ''MBAssets3.pk3.bak'',
       Added_placeholder ''ext_data/mb2/character/.keep'',
       Added_placeholder ''ext_data/mb2/teamconfig/.keep'',
       Files_removed ''MBAssets3.pk3'', Original_modified ''MBAssets3.pk3'']"
    by simp
  have n: "Restored_from_backup ''MBAssets3.pk3''
      \<in> set [Removing_existing ''MBAssets3.pk3'', Restored_from_backup ''MBAssets3.pk3'']"
    by simp
  have "example_fs ''MBAssets3.pk3'' = Some (Zip example_archive)"
    by (rule backup_restore_roundtrip [OF a example_backup m example_restore n])
  then show ?thesis using example_backup example_restore by blast
qed

subsection \<open>Two entries of one name\<close>

text \<open>
  Claim C3 says that each listed entry keeps its own bytes, also when two entries share a
  name. The loop reads with \<^verbatim>\<open>zip_read.read(item.filename)\<close>, by name, so both entries of
  the name \<open>a.txt\<close> receive the bytes of the last one: in the archive below the first
  entry holds \<open>first\<close>, and after the successful backup the first entry of the rewritten
  archive holds \<open>second\<close>.
\<close>

theorem duplicate_names_share_last_bytes:
  "backup_pk3 no_faults ''MBAssets3.pk3'' ''MBAssets3.pk3.bak'' DIRS_TO_CLEAR
     [''MBAssets3.pk3'' \<mapsto> Zip duplicate_archive] =
     (None,
      [Backup_created ''MBAssets3.pk3.bak'',
       Added_placeholder ''ext_data/mb2/character/.keep'',
       Added_placeholder ''ext_data/mb2/teamconfig/.keep'',
       Files_removed ''MBAssets3.pk3'', Original_modified ''MBAssets3.pk3''],
      [''MBAssets3.pk3.bak'' \<mapsto> Zip duplicate_archive,
       ''MBAssets3.pk3'' \<mapsto> Zip duplicate_result]) \<and>
   stored (duplicate_archive ! 0) = Inr ''first'' \<and>
   stored (duplicate_result ! 0) = Inr ''second''"
proof -
  have s: "strip no_faults DIRS_TO_CLEAR duplicate_archive =
      (duplicate_result,
       [Added_placeholder ''ext_data/mb2/character/.keep'',
        Added_placeholder ''ext_data/mb2/teamconfig/.keep''])"
    by (simp add: call_defs duplicate_archive_def duplicate_result_def DIRS_TO_CLEAR_def)
  have b: "backup_pk3 no_faults ''MBAssets3.pk3'' ''MBAssets3.pk3.bak'' DIRS_TO_CLEAR
     [''MBAssets3.pk3'' \<mapsto> Zip duplicate_archive] =
     (None,
      [Backup_created ''MBAssets3.pk3.bak'',
       Added_placeholder ''ext_data/mb2/character/.keep'',
       Added_placeholder ''ext_data/mb2/teamconfig/.keep'',
       Files_removed ''MBAssets3.pk3'', Original_modified ''MBAssets3.pk3''],
      [''MBAssets3.pk3.bak'' \<mapsto> Zip duplicate_archive,
       ''MBAssets3.pk3'' \<mapsto> Zip duplicate_result])"
    by (simp add: backup_pk3_def path_exists_def copyfile_def
      no_faults_def rewrite_def ZipFile_r_def ZipFile_w_def ZipFile_close_def
      replace_original_def os_remove_def os_rename_def s [unfolded no_faults_def])
  have "stored (duplicate_archive ! 0) = Inr ''first''"
    by (simp add: duplicate_archive_def)
  moreover have "stored (duplicate_result ! 0) = Inr ''second''"
    by (simp add: duplicate_result_def)
  ultimately show ?thesis using b by blast
qed

subsection \<open>A source that is no ZIP archive\<close>

text \<open>
  Claim C4, as amended. Let the backup have been created (\<^verbatim>\<open>shutil.copyfile\<close> returned) and
  let opening the source raise \<^verbatim>\<open>BadZipFile\<close>. Then \<^verbatim>\<open>backup_pk3\<close> reports that the file is
  not a valid ZIP file (FormatError) and the archive path holds the bytes it held, in
  every environment; and when \<^verbatim>\<open>os.remove\<close> of the backup does not raise, the operation
  returns without an exception and the backup path is empty.
\<close>

theorem not_a_zip_rollback:
  assumes "copyfile F pk3_file backup_file fs = (None, fs1)"
    and "ZipFile_r F pk3_file fs1 = Inl BadZipFile"
    and "backup_pk3 F pk3_file backup_file dirs fs = (r, out, fs')"
  shows "Error_not_valid_zip pk3_file \<in> set out \<and> fs' pk3_file = fs pk3_file
     \<and> (\<not> remove_raises F backup_file \<longrightarrow> r = None \<and> fs' backup_file = None)"
proof -
  obtain d where d: "pk3_file \<noteq> backup_file" "fs pk3_file = Some d" "fs1 = fs(backup_file \<mapsto> d)"
    using copyfile_cases [OF assms(1)] by auto
  have w: "rewrite F pk3_file (''temp_'' @ pk3_file) dirs fs1 = (Some BadZipFile, [], fs1)"
    using assms(2) by (simp add: rewrite_def)
  let ?out = "(if path_exists fs backup_file then [Warning_backup_exists backup_file] else [])
       @ [Backup_created backup_file, Error_not_valid_zip pk3_file]"
  have rb: "remove_backup F backup_file ?out fs1 = (r, out, fs')"
    using assms(1,3) d(2) w by (simp add: backup_pk3_def path_exists_def)
  show ?thesis
  proof (cases "remove_raises F backup_file")
    case True
    then have "out = ?out \<and> fs' = fs1"
      using rb by (auto simp: remove_backup_def os_remove_def)
    then show ?thesis using True d by auto
  next
    case False
    then have "r = None \<and> out = ?out \<and> fs' = fs1(backup_file := None)"
      using rb d(3) by (auto simp: remove_backup_def os_remove_def)
    then show ?thesis using d by auto
  qed
qed

text \<open>The theorem at work: a text file under the archive's name.\<close>

theorem not_a_zip_rollback_witness:
  "copyfile no_faults ''MBAssets3.pk3'' ''MBAssets3.pk3.bak'' text_fs =
     (None, [''MBAssets3.pk3'' \<mapsto> NotZip ''plain text'',
             ''MBAssets3.pk3.bak'' \<mapsto> NotZip ''plain text'']) \<and>
   ZipFile_r no_faults ''MBAssets3.pk3''
     [''MBAssets3.pk3'' \<mapsto> NotZip ''plain text'',
      ''MBAssets3.pk3.bak'' \<mapsto> NotZip ''plain text''] = Inl BadZipFile \<and>
   backup_pk3 no_faults ''MBAssets3.pk3'' ''MBAssets3.pk3.bak'' DIRS_TO_CLEAR text_fs =
     (None, [Backup_created ''MBAssets3.pk3.bak'', Error_not_valid_zip ''MBAssets3.pk3''],
      text_fs) \<and>
   \<not> remove_raises no_faults ''MBAssets3.pk3.bak'' \<and>
   Error_not_valid_zip ''MBAssets3.pk3''
     \<in> set [Backup_created ''MBAssets3.pk3.bak'', Error_not_valid_zip ''MBAssets3.pk3''] \<and>
   text_fs ''MBAssets3.pk3'' = Some (NotZip ''plain text'') \<and>
   text_fs ''MBAssets3.pk3.bak'' = None"
proof -
  let ?fs1 = "[''MBAssets3.pk3'' \<mapsto> NotZip ''plain text'',
             ''MBAssets3.pk3.bak'' \<mapsto> NotZip ''plain text'']"
  have c: "copyfile no_faults ''MBAssets3.pk3'' ''MBAssets3.pk3.bak'' text_fs = (None, ?fs1)"
    by (simp add: copyfile_def no_faults_def text_fs_def)
  have z: "ZipFile_r no_faults ''MBAssets3.pk3'' ?fs1 = Inl BadZipFile"
    by (simp add: ZipFile_r_def no_faults_def)
  have b: "backup_pk3 no_faults ''MBAssets3.pk3'' ''MBAssets3.pk3.bak'' DIRS_TO_CLEAR text_fs =
     (None, [Backup_created ''MBAssets3.pk3.bak'', Error_not_valid_zip ''MBAssets3.pk3''],
      text_fs)"
    by (simp add: call_defs text_fs_def)
  have l: "\<not> remove_raises no_faults ''MBAssets3.pk3.bak''"
    by (simp add: no_faults_def)
  have t: "text_fs ''MBAssets3.pk3'' = Some (NotZip ''plain text'')"
    by (simp add: text_fs_def)
  show ?thesis
    using c z b l t not_a_zip_rollback [OF c z b] by simp
qed

text \<open>
  Claim C4 as it is stated, with the backup deleted and the operation aborting in every
  case, fails when the deletion is refused: the backup was created, the source is no ZIP
  archive, and after the run the backup is still at its path and an exception has left
  the operation.
\<close>

theorem locked_backup_counterexample:
  "copyfile locked_backup ''MBAssets3.pk3'' ''MBAssets3.pk3.bak'' text_fs =
     (None, [''MBAssets3.pk3'' \<mapsto> NotZip ''plain text'',
             ''MBAssets3.pk3.bak'' \<mapsto> NotZip ''plain text'']) \<and>
   ZipFile_r locked_backup ''MBAssets3.pk3''
     [''MBAssets3.pk3'' \<mapsto> NotZip ''plain text'',
      ''MBAssets3.pk3.bak'' \<mapsto> NotZip ''plain text''] = Inl BadZipFile \<and>
   snd (snd (backup_pk3 locked_backup ''MBAssets3.pk3'' ''MBAssets3.pk3.bak'' DIRS_TO_CLEAR
     text_fs)) ''MBAssets3.pk3.bak'' = Some (NotZip ''plain text'') \<and>
   fst (backup_pk3 locked_backup ''MBAssets3.pk3'' ''MBAssets3.pk3.bak'' DIRS_TO_CLEAR
     text_fs) \<noteq> None"
  by (simp add: call_defs locked_backup_def text_fs_def)

subsection \<open>Exceptions at the boundary of the operations\<close>

text \<open>
  Claim C9 says that no exception leaves \<^verbatim>\<open>backup_pk3\<close> or \<^verbatim>\<open>restore_pk3\<close>. The two
  handlers of the rewrite call \<^verbatim>\<open>os.remove(backup_file)\<close> outside any \<^verbatim>\<open>try\<close>: with a text
  file under the archive's name and a backup that cannot be deleted, \<^verbatim>\<open>backup_pk3\<close>
  prints that the file is not a valid ZIP file and the \<open>OSError\<close> of the deletion leaves
  it. (\<open>restore_pk3_never_raises\<close> and \<open>backup_pk3_raises_in_rollback\<close> show that this
  deletion is the only place.)
\<close>

theorem rollback_raises_uncaught:
  "backup_pk3 locked_backup ''MBAssets3.pk3'' ''MBAssets3.pk3.bak'' DIRS_TO_CLEAR text_fs =
     (Some OSError,
      [Backup_created ''MBAssets3.pk3.bak'', Error_not_valid_zip ''MBAssets3.pk3''],
      [''MBAssets3.pk3'' \<mapsto> NotZip ''plain text'',
       ''MBAssets3.pk3.bak'' \<mapsto> NotZip ''plain text''])"
  by (simp add: call_defs locked_backup_def text_fs_def)

subsection \<open>Stripping twice\<close>

text \<open>
  Claim C10, on POSIX paths. Let no prefix of the list contain a NUL character. Apply the
  two loops of \<^verbatim>\<open>backup_pk3\<close> to an archive, then to the archive they wrote, neither
  application reporting an entry or placeholder error. The first application writes the
  kept entries followed by one placeholder for each prefix. Every placeholder starts with
  its prefix, so the first loop of the second application drops them all and writes the
  kept entries only; its second loop adds one placeholder for each prefix again. The
  second application so writes the archive it read: the same entry names in the same
  order, hence the same set of entry names.
\<close>

theorem strip_names_idempotent:
  assumes "list_all nul_free dirs"
    and "entry_errors (snd (strip F1 dirs src)) = []"
    and "entry_errors (snd (strip F2 dirs (fst (strip F1 dirs src)))) = []"
  shows "fst (strip F1 dirs src) = map (copied src) (kept dirs src) @ map placeholder dirs
     \<and> fst (copy_items F2 (fst (strip F1 dirs src)) dirs (fst (strip F1 dirs src)) ([], []))
           = map (copied src) (kept dirs src)
     \<and> fst (strip F2 dirs (fst (strip F1 dirs src)))
           = map (copied src) (kept dirs src) @ map placeholder dirs
     \<and> map filename (fst (strip F2 dirs (fst (strip F1 dirs src))))
           = map filename (fst (strip F1 dirs src))
     \<and> set (map filename (fst (strip F2 dirs (fst (strip F1 dirs src)))))
           = set (map filename (fst (strip F1 dirs src)))"
proof -
  let ?K = "map (copied src) (kept dirs src)"
  let ?P = "map placeholder dirs"
  let ?O = "?K @ ?P"
  have O: "fst (strip F1 dirs src) = ?O"
    by (rule strip_fst_quiet [OF assms(2)])
  have q2: "entry_errors (snd (strip F2 dirs ?O)) = []"
    using assms(3) O by simp
  have "kept dirs ?O = ?K"
    using kept_copied [of dirs src] kept_placeholders [of dirs] by (simp add: kept_def)
  moreover have "map (copied ?O) ?K = ?K"
    by (intro map_idI) (rule copied_again)
  ultimately have again: "map (copied ?O) (kept dirs ?O) = ?K"
    by simp
  have loop: "fst (copy_items F2 ?O dirs ?O ([], [])) = ?K"
    using copy_loop_quiet [OF q2] again by simp
  have twice: "fst (strip F2 dirs ?O) = ?O"
    using strip_fst_quiet [OF q2] again by simp
  show ?thesis
    using O loop twice by simp
qed

text \<open>The theorem at work: the example archive, stripped twice.\<close>

theorem strip_names_idempotent_witness:
  "list_all nul_free DIRS_TO_CLEAR \<and>
   entry_errors (snd (strip no_faults DIRS_TO_CLEAR example_archive)) = [] \<and>
   entry_errors (snd (strip no_faults DIRS_TO_CLEAR
      (fst (strip no_faults DIRS_TO_CLEAR example_archive)))) = [] \<and>
   fst (strip no_faults DIRS_TO_CLEAR example_archive) = stripped_archive \<and>
   fst (copy_items no_faults stripped_archive DIRS_TO_CLEAR stripped_archive ([], []))
     = [\<lparr>filename = ''a.txt'', stored = Inr ''A''\<rparr>,
        \<lparr>filename = ''readme.md'', stored = Inr ''R''\<rparr>] \<and>
   fst (strip no_faults DIRS_TO_CLEAR (fst (strip no_faults DIRS_TO_CLEAR example_archive)))
     = stripped_archive \<and>
   map filename (fst (strip no_faults DIRS_TO_CLEAR
      (fst (strip no_faults DIRS_TO_CLEAR example_archive))))
     = [''a.txt'', ''readme.md'', ''ext_data/mb2/character/.keep'',
        ''ext_data/mb2/teamconfig/.keep'']"
proof -
  have s2: "strip no_faults DIRS_TO_CLEAR stripped_archive =
     (stripped_archive,
      [Added_placeholder ''ext_data/mb2/character/.keep'',
       Added_placeholder ''ext_data/mb2/teamconfig/.keep''])"
    by (simp add: call_defs stripped_archive_def DIRS_TO_CLEAR_def)
  have q1: "entry_errors (snd (strip no_faults DIRS_TO_CLEAR example_archive)) = []"
    by (simp add: example_strip entry_errors_def)
  have q2: "entry_errors (snd (strip no_faults DIRS_TO_CLEAR
      (fst (strip no_faults DIRS_TO_CLEAR example_archive)))) = []"
    by (simp add: example_strip s2 entry_errors_def)
  have k: "map (copied example_archive) (kept DIRS_TO_CLEAR example_archive) =
      [\<lparr>filename = ''a.txt'', stored = Inr ''A''\<rparr>,
       \<lparr>filename = ''readme.md'', stored = Inr ''R''\<rparr>]"
    by (simp add: copied_def kept_def example_archive_def DIRS_TO_CLEAR_def startswith_def
        zip_read_def NameToInfo_def)
  have n: "map filename stripped_archive
     = [''a.txt'', ''readme.md'', ''ext_data/mb2/character/.keep'',
        ''ext_data/mb2/teamconfig/.keep'']"
    by (simp add: stripped_archive_def)
  show ?thesis
    using nul_free_dirs q1 q2 k n strip_names_idempotent [OF nul_free_dirs q1 q2]
    by (simp add: example_strip)
qed

end
